theory Spec2Isabelle
  imports
    Complex_Main
    "HOL-Library.Char_ord"
    "HOL-Library.List_Lexorder"
    "HOL-Library.Product_Lexorder"
begin

section \<open>create-pdf: configuration resolution, page transformations, assembly\<close>

text \<open>
  A shallow embedding of \<^verbatim>\<open>src/create-pdf.py\<close> (class \<^verbatim>\<open>PDFConverter\<close>).
  Every method of the class is a HOL function of the same name. What the Python does
  beyond returning a value is explicit:
  \<^item> a raised exception is the left summand of the result;
  \<^item> every \<^verbatim>\<open>logger\<close> call and every \<^verbatim>\<open>print\<close> is an event of a trace that the
    function returns next to its value (the format string's literal text is kept, the
    interpolated values are left out);
  \<^item> the file system, standard input and the external codecs (\<^verbatim>\<open>json\<close>, \<^verbatim>\<open>pypdf\<close>,
    \<^verbatim>\<open>PIL\<close>) are fields of the \<open>state\<close> record; the codecs are functions that may fail.
  Strings are byte strings; comparing them byte by byte agrees with Python's comparison
  of code points (UTF-8 keeps that order).
\<close>

subsection \<open>Exceptions and the trace\<close>

text \<open>
  \<open>exc\<close> are the classes derived from \<^verbatim>\<open>Exception\<close> that the program meets;
  \<open>LibraryError\<close> stands for any other such class raised inside a codec.
  \<^verbatim>\<open>KeyboardInterrupt\<close> derives from \<^verbatim>\<open>BaseException\<close> only, so
  \<^verbatim>\<open>except Exception\<close> does not catch it.
\<close>

datatype exc =
  TypeError | ValueError | KeyError | JSONDecodeError | FileNotFoundError | OSError
| EOFError | LibraryError

datatype raised = KeyboardInterrupt | Exception exc

datatype level = DEBUG | INFO | WARNING | ERROR

datatype event = Log level string | Print string

type_synonym ('e, 'a) result = "('e + 'a) \<times> event list"

type_synonym 'a res = "(exc, 'a) result"

definition ret :: "'a \<Rightarrow> ('e, 'a) result" where
  "ret x = (Inr x, [])"

definition raise :: "'e \<Rightarrow> ('e, 'a) result" where
  "raise e = (Inl e, [])"

definition logger :: "level \<Rightarrow> string \<Rightarrow> ('e, unit) result" where
  "logger lv msg = (Inr (), [Log lv msg])"

text \<open>Sequencing: the trace accumulates; an exception ends the computation.\<close>

definition bind :: "('e, 'a) result \<Rightarrow> ('a \<Rightarrow> ('e, 'b) result) \<Rightarrow> ('e, 'b) result" where
  "bind m f =
     (case m of
        (Inl e, l) \<Rightarrow> (Inl e, l)
      | (Inr x, l) \<Rightarrow> (case f x of (r, l') \<Rightarrow> (r, l @ l')))"

subsection \<open>Parsed JSON and Python's dynamic operations on it\<close>

text \<open>
  What \<^verbatim>\<open>json.load\<close> returns. A number is an integer here; a JSON number with a
  fraction takes the same branches as an integer everywhere below. An object is the
  list of its keys and values in the order of the \<^verbatim>\<open>dict\<close>, the keys being distinct.
\<close>

datatype json =
  JNull | JBool bool | JNum int | JStr string | JArr "json list"
| JObj "(string \<times> json) list"

fun is_JStr :: "json \<Rightarrow> bool" where
  "is_JStr (JStr s) = True"
| "is_JStr j = False"

fun un_JStr :: "json \<Rightarrow> string" where
  "un_JStr (JStr s) = s"
| "un_JStr j = []"

fun is_number :: "json \<Rightarrow> bool" where
  "is_number (JNum n) = True"
| "is_number (JBool b) = True"
| "is_number j = False"

fun number_key :: "json \<Rightarrow> int" where
  "number_key (JNum n) = n"
| "number_key (JBool b) = (if b then 1 else 0)"
| "number_key j = 0"

text \<open>
  \<^verbatim>\<open>for x in v\<close>: a list gives its elements, a string its characters, a dict its
  keys; \<^verbatim>\<open>None\<close>, a number and a bool are not iterable.
\<close>

fun py_iter :: "json \<Rightarrow> json list res" where
  "py_iter (JArr xs) = ret xs"
| "py_iter (JStr s) = ret (map (\<lambda>c. JStr [c]) s)"
| "py_iter (JObj kvs) = ret (map (\<lambda>kv. JStr (fst kv)) kvs)"
| "py_iter j = raise TypeError"

text \<open>
  \<^verbatim>\<open>sorted(xs)\<close> on a list of JSON values. \<^verbatim>\<open>list.sort\<close> compares elements with
  \<^verbatim>\<open><\<close>: strings by code point, numbers and bools by value (the sort is stable); a
  string against a non-string, \<^verbatim>\<open>None\<close> and a dict against anything raise
  \<^verbatim>\<open>TypeError\<close>. A list of at most one element is returned without any comparison.
  Two or more nested arrays are compared element by element and may or may not raise;
  the model raises at once: in \<open>process_item\<close>, the only caller, a sorted list of
  nested arrays raises the same \<^verbatim>\<open>TypeError\<close> at its first element.
\<close>

definition py_sorted :: "json list \<Rightarrow> json list res" where
  "py_sorted xs =
     (if \<forall>x \<in> set xs. is_JStr x then ret (map JStr (sort (map un_JStr xs)))
      else if length xs \<le> 1 then ret xs
      else if \<forall>x \<in> set xs. is_number x then ret (sort_key number_key xs)
      else raise TypeError)"

subsection \<open>Paths (\<^verbatim>\<open>pathlib\<close> and \<^verbatim>\<open>os.path\<close>, POSIX flavour)\<close>

text \<open>
  A \<^verbatim>\<open>Path\<close> object is represented by the string \<^verbatim>\<open>str\<close> gives for it.
  \<open>Path s\<close> is \<^verbatim>\<open>str(Path(s))\<close>: empty and \<^verbatim>\<open>.\<close> components are dropped, the root is
  \<^verbatim>\<open>/\<close> (or \<^verbatim>\<open>//\<close> for exactly two leading slashes), the empty path prints as \<^verbatim>\<open>.\<close>.
\<close>

fun split_slash :: "string \<Rightarrow> string list" where
  "split_slash [] = [] # []"
| "split_slash (c # cs) =
     (if c = CHR ''/'' then [] # split_slash cs
      else (case split_slash cs of [] \<Rightarrow> [c] # [] | p # ps \<Rightarrow> (c # p) # ps))"

fun join_slash :: "string list \<Rightarrow> string" where
  "join_slash [] = []"
| "join_slash [p] = p"
| "join_slash (p # q # ps) = p @ ''/'' @ join_slash (q # ps)"

definition path_root :: "string \<Rightarrow> string" where
  "path_root s =
     (if take 2 s = ''//'' \<and> take 3 s \<noteq> ''///'' then ''//''
      else if take 1 s = ''/'' then ''/''
      else [])"

definition path_parts :: "string \<Rightarrow> string list" where
  "path_parts s = filter (\<lambda>x. x \<noteq> [] \<and> x \<noteq> ''.'') (split_slash s)"

definition path_fmt :: "string \<Rightarrow> string list \<Rightarrow> string" where
  "path_fmt r ps = (if r = [] \<and> ps = [] then ''.'' else r @ join_slash ps)"

definition Path :: "string \<Rightarrow> string" where
  "Path s = path_fmt (path_root s) (path_parts s)"

text \<open>\<^verbatim>\<open>str(Path(a) / b)\<close>: an absolute \<open>b\<close> replaces \<open>a\<close>.\<close>

definition path_div :: "string \<Rightarrow> string \<Rightarrow> string" where
  "path_div a b =
     (if path_root b \<noteq> [] then Path b
      else path_fmt (path_root a) (path_parts a @ path_parts b))"

definition path_name :: "string \<Rightarrow> string" where
  "path_name p = (if path_parts p = [] then [] else last (path_parts p))"

definition path_parent :: "string \<Rightarrow> string" where
  "path_parent p = path_fmt (path_root p) (butlast (path_parts p))"

text \<open>
  \<^verbatim>\<open>suffix\<close> and \<^verbatim>\<open>stem\<close>: with \<open>i\<close> the index of the last dot of the name, the
  suffix is \<^verbatim>\<open>name[i:]\<close> when \<^verbatim>\<open>0 < i < len(name) - 1\<close> and empty otherwise.
\<close>

definition rfind_dot :: "string \<Rightarrow> nat option" where
  "rfind_dot nm =
     (if CHR ''.'' \<in> set nm
      then Some (length nm - length (takeWhile (\<lambda>c. c \<noteq> CHR ''.'') (rev nm)) - 1)
      else None)"

definition path_suffix :: "string \<Rightarrow> string" where
  "path_suffix p =
     (let nm = path_name p in
      case rfind_dot nm of
        None \<Rightarrow> []
      | Some i \<Rightarrow> if 0 < i \<and> i < length nm - 1 then drop i nm else [])"

definition path_stem :: "string \<Rightarrow> string" where
  "path_stem p =
     (let nm = path_name p in
      case rfind_dot nm of
        None \<Rightarrow> nm
      | Some i \<Rightarrow> if 0 < i \<and> i < length nm - 1 then take i nm else nm)"

text \<open>\<^verbatim>\<open>with_suffix\<close> raises \<^verbatim>\<open>ValueError\<close> on an empty name.\<close>

definition with_suffix :: "string \<Rightarrow> string \<Rightarrow> exc + string" where
  "with_suffix p sfx =
     (if path_name p = [] then Inl ValueError
      else Inr (path_fmt (path_root p) (butlast (path_parts p) @ [path_stem p @ sfx])))"

text \<open>\<^verbatim>\<open>os.path.join\<close> of two components.\<close>

definition os_path_join :: "string \<Rightarrow> string \<Rightarrow> string" where
  "os_path_join a b =
     (if b \<noteq> [] \<and> hd b = CHR ''/'' then b
      else if a = [] \<or> last a = CHR ''/'' then a @ b
      else a @ ''/'' @ b)"

text \<open>\<^verbatim>\<open>str.lower\<close> and \<^verbatim>\<open>str.strip\<close> (ASCII), \<^verbatim>\<open>str(n)\<close> for a counter.\<close>

definition lower_char :: "char \<Rightarrow> char" where
  "lower_char c =
     (case map_of (zip ''ABCDEFGHIJKLMNOPQRSTUVWXYZ'' ''abcdefghijklmnopqrstuvwxyz'') c of
        None \<Rightarrow> c
      | Some d \<Rightarrow> d)"

definition lower :: "string \<Rightarrow> string" where
  "lower s = map lower_char s"

definition is_space :: "char \<Rightarrow> bool" where
  "is_space c = (c \<in> set [CHR '' '', CHR 0x09, CHR 0x0A, CHR 0x0B, CHR 0x0C, CHR 0x0D])"

definition strip :: "string \<Rightarrow> string" where
  "strip s = rev (dropWhile is_space (rev (dropWhile is_space s)))"

definition digit_char :: "nat \<Rightarrow> char" where
  "digit_char d = ''0123456789'' ! d"

fun show_nat :: "nat \<Rightarrow> string" where
  "show_nat n = (if n < 10 then [digit_char n] else show_nat (n div 10) @ [digit_char (n mod 10)])"

declare show_nat.simps [simp del]

subsection \<open>The file system\<close>

text \<open>
  A path leads to a regular file or to a directory; a directory carries its entries in
  the order \<^verbatim>\<open>scandir\<close> reports them, which is arbitrary. Symbolic links and
  special files are outside the model: the specification leaves them to the platform.
\<close>

datatype node = File | Dir "(string \<times> node) list"

type_synonym filesystem = "(string \<times> node) list"

definition path_exists :: "filesystem \<Rightarrow> string \<Rightarrow> bool" where
  "path_exists fs p = (map_of fs p \<noteq> None)"

definition fs_create :: "string \<Rightarrow> filesystem \<Rightarrow> filesystem" where
  "fs_create p fs = (p, File) # filter (\<lambda>e. fst e \<noteq> p) fs"

definition fs_remove :: "string \<Rightarrow> filesystem \<Rightarrow> filesystem" where
  "fs_remove p fs = filter (\<lambda>e. fst e \<noteq> p) fs"

text \<open>
  \<^verbatim>\<open>os.walk\<close>, top-down: the directory itself with the names of its subdirectories
  and of its other entries, then every subdirectory in turn.
\<close>

fun os_walk :: "string \<Rightarrow> node \<Rightarrow> (string \<times> string list \<times> string list) list" where
  "os_walk dirpath File = []"
| "os_walk dirpath (Dir es) =
     (dirpath, [n. (n, Dir sub) \<leftarrow> es], [n. (n, File) \<leftarrow> es])
       # concat (map (\<lambda>(n, nd). os_walk (os_path_join dirpath n) nd) es)"

subsection \<open>\<^verbatim>\<open>get_files_from_path\<close>\<close>

text \<open>
  \<^verbatim>\<open>Path(path)\<close> raises \<^verbatim>\<open>TypeError\<close> unless \<open>path\<close> is a string. The recursive
  branch sorts the triples of \<^verbatim>\<open>os.walk\<close> (Python compares tuples and lists
  lexicographically, as the product and list orders do here) and sorts the file names
  of each triple.
\<close>

definition walk_files :: "(string \<times> string list \<times> string list) list \<Rightarrow> string list" where
  "walk_files triples =
     concat (map (\<lambda>(root, _, filenames). map (\<lambda>filename. path_div root filename) (sort filenames))
       (sort triples))"

fun get_files_from_path :: "filesystem \<Rightarrow> json \<Rightarrow> bool \<Rightarrow> string list res" where
  "get_files_from_path fs (JStr s) recursive =
     (let p = Path s in
      case map_of fs p of
        None \<Rightarrow> bind (logger WARNING ''Path does not exist: '') (\<lambda>_. ret [])
      | Some File \<Rightarrow> bind (logger DEBUG ''Single file path: '') (\<lambda>_. ret [p])
      | Some (Dir es) \<Rightarrow>
          bind (logger INFO ''Processing directory: '') (\<lambda>_.
            if recursive then
              (let files = walk_files (os_walk p (Dir es)) in
               bind (logger DEBUG ''Found files recursively in '') (\<lambda>_. ret files))
            else
              (let files = sort [path_div p n. (n, File) \<leftarrow> es] in
               bind (logger DEBUG ''Found files in directory '') (\<lambda>_. ret files))))"
| "get_files_from_path fs j recursive = raise TypeError"

text \<open>
  The files that \<open>get_files_from_path\<close> returns for a path string (on a string it
  never raises).
\<close>

definition expand :: "filesystem \<Rightarrow> string \<Rightarrow> bool \<Rightarrow> string list" where
  "expand fs p recursive =
     (case fst (get_files_from_path fs (JStr p) recursive) of Inl e \<Rightarrow> [] | Inr files \<Rightarrow> files)"

text \<open>
  The per-directory listings of a recursive expansion, as the specification words them:
  the directories of the walk in the lexicographic order of their paths, each with its
  file names in lexicographic order.
\<close>

definition directory_listings :: "string \<Rightarrow> node \<Rightarrow> (string \<times> string list) list" where
  "directory_listings dirpath nd =
     map (\<lambda>(root, dirs, names). (root, sort names)) (sort (os_walk dirpath nd))"

subsection \<open>\<^verbatim>\<open>process_files_array\<close>\<close>

record resolved =
  path :: string
  options :: "json list"

text \<open>
  The inner loop over \<^verbatim>\<open>sorted_paths\<close>: every path is expanded and every file found is
  appended with a copy of \<^verbatim>\<open>current_options\<close>.
\<close>

fun expand_paths :: "filesystem \<Rightarrow> json list \<Rightarrow> bool \<Rightarrow> json list \<Rightarrow> resolved list res" where
  "expand_paths fs current_options is_recursive [] = ret []"
| "expand_paths fs current_options is_recursive (p # ps) =
     bind (get_files_from_path fs p is_recursive) (\<lambda>files.
     bind (expand_paths fs current_options is_recursive ps) (\<lambda>rest.
       ret (map (\<lambda>file. \<lparr>path = file, options = current_options\<rparr>) files @ rest)))"

text \<open>
  \<^verbatim>\<open>current_options\<close> of a dictionary entry: the inherited options, extended by the
  options of the entry that are not among the inherited ones. The comprehension tests
  against the inherited copy, which is extended only afterwards.
\<close>

definition merge_options :: "string list \<Rightarrow> (string \<times> json) list \<Rightarrow> json list res" where
  "merge_options inherited_options item =
     (let current_options = map JStr inherited_options in
      case map_of item ''options'' of
        None \<Rightarrow> ret current_options
      | Some v \<Rightarrow>
          bind (py_iter v) (\<lambda>opts.
            let new_options = filter (\<lambda>opt. opt \<notin> set current_options) opts in
            bind (if new_options \<noteq> [] then logger INFO ''Adding new options: '' else ret ()) (\<lambda>_.
              ret (current_options @ new_options))))"

text \<open>The body of the loop over \<^verbatim>\<open>files_array\<close>, for one \<open>item\<close>.\<close>

fun process_item :: "filesystem \<Rightarrow> string list \<Rightarrow> json \<Rightarrow> resolved list res" where
  "process_item fs inherited_options (JStr s) =
     bind (logger INFO ''Processing path entry: '') (\<lambda>_.
     bind (get_files_from_path fs (JStr s) False) (\<lambda>files.
       ret (map (\<lambda>file. \<lparr>path = file, options = map JStr inherited_options\<rparr>) files)))"
| "process_item fs inherited_options (JObj item) =
     bind (merge_options inherited_options item) (\<lambda>current_options.
       let is_recursive = (JStr ''recursive'' \<in> set current_options) in
       bind (logger INFO ''Processing dictionary entry with options: '') (\<lambda>_.
         case map_of item ''files'' of
           None \<Rightarrow> ret []
         | Some v \<Rightarrow>
             bind (py_iter v) (\<lambda>xs.
             bind (py_sorted xs) (\<lambda>sorted_paths.
             bind (logger DEBUG ''Processing files in order: '') (\<lambda>_.
               expand_paths fs current_options is_recursive sorted_paths)))))"
| "process_item fs inherited_options j = ret []"

fun process_items :: "filesystem \<Rightarrow> string list \<Rightarrow> json list \<Rightarrow> resolved list res" where
  "process_items fs inherited_options [] = ret []"
| "process_items fs inherited_options (item # items) =
     bind (process_item fs inherited_options item) (\<lambda>found.
     bind (process_items fs inherited_options items) (\<lambda>rest.
       ret (found @ rest)))"

text \<open>
  \<^verbatim>\<open>inherited_options\<close> defaults to \<^verbatim>\<open>None\<close>, which \<^verbatim>\<open>or []\<close> turns into the empty
  list. \<^verbatim>\<open>files_array\<close> is whatever the configuration holds under \<^verbatim>\<open>files\<close>; the
  \<^verbatim>\<open>for\<close> loop iterates over it.
\<close>

definition process_files_array :: "filesystem \<Rightarrow> json \<Rightarrow> string list option \<Rightarrow> resolved list res" where
  "process_files_array fs files_array inherited =
     (let inherited_options = (case inherited of None \<Rightarrow> [] | Some opts \<Rightarrow> opts) in
      bind (if inherited_options \<noteq> [] then logger INFO ''Processing with inherited options: ''
            else ret ()) (\<lambda>_.
      bind (py_iter files_array) (\<lambda>items.
        process_items fs inherited_options items)))"

subsection \<open>Pages and \<^verbatim>\<open>apply_transformations\<close>\<close>

text \<open>
  A page has a rotation in degrees, a media box and the affine map that its content has
  undergone: \<open>(a, b, c, d, e, f)\<close> sends the point \<open>(x, y)\<close> to
  \<open>(a * x + c * y + e, b * x + d * y + f)\<close>. Coordinates are exact reals.
\<close>

record page =
  rotation :: int
  mediabox_width :: real
  mediabox_height :: real
  ctm :: "real \<times> real \<times> real \<times> real \<times> real \<times> real"

definition place :: "page \<Rightarrow> real \<times> real \<Rightarrow> real \<times> real" where
  "place pg pt =
     (case ctm pg of (a, b, c, d, e, f) \<Rightarrow>
        (a * fst pt + c * snd pt + e, b * fst pt + d * snd pt + f))"

definition orientation :: "page \<Rightarrow> int" where
  "orientation pg = rotation pg mod 360"

text \<open>
  Modelled from the spec: \<^verbatim>\<open>PageObject.rotate\<close> of \<^verbatim>\<open>pypdf\<close> is not in the sources.
  The specification has it rotate the page by the given angle, rotations composing
  modulo 360: the angle is added to the page's rotation, and the orientation of a page
  is its rotation modulo 360.
\<close>

definition rotate_page :: "page \<Rightarrow> int \<Rightarrow> page" where
  "rotate_page pg angle = pg\<lparr>rotation := rotation pg + angle\<rparr>"

text \<open>
  Modelled from the spec: \<^verbatim>\<open>PageObject.scale\<close>, \<^verbatim>\<open>translate_x\<close> and \<^verbatim>\<open>translate_y\<close> are
  not in the sources. The specification has a flip negate one scale of the content and
  then translate it by the page's width or height, within the original media box: the
  three operations act on the content's map and leave the media box as it is.
\<close>

definition scale :: "page \<Rightarrow> real \<Rightarrow> real \<Rightarrow> page" where
  "scale pg sx sy =
     (case ctm pg of (a, b, c, d, e, f) \<Rightarrow>
        pg\<lparr>ctm := (sx * a, sy * b, sx * c, sy * d, sx * e, sy * f)\<rparr>)"

definition translate_x :: "page \<Rightarrow> real \<Rightarrow> page" where
  "translate_x pg t = (case ctm pg of (a, b, c, d, e, f) \<Rightarrow> pg\<lparr>ctm := (a, b, c, d, e + t, f)\<rparr>)"

definition translate_y :: "page \<Rightarrow> real \<Rightarrow> page" where
  "translate_y pg t = (case ctm pg of (a, b, c, d, e, f) \<Rightarrow> pg\<lparr>ctm := (a, b, c, d, e, f + t)\<rparr>)"

text \<open>The half turn of the plane about the centre \<open>c\<close>.\<close>

definition rotate180_about :: "real \<times> real \<Rightarrow> real \<times> real \<Rightarrow> real \<times> real" where
  "rotate180_about c pt = (fst c - (fst pt - fst c), snd c - (snd pt - snd c))"

text \<open>The body of the loop over \<open>options\<close>, for one \<open>option\<close>.\<close>

definition apply_option :: "page \<Rightarrow> json \<Rightarrow> page res" where
  "apply_option pg option =
     (if option = JStr ''rotate90'' then
        bind (logger DEBUG ''Rotating page 90 degrees counter-clockwise'') (\<lambda>_. ret (rotate_page pg 90))
      else if option = JStr ''rotate180'' then
        bind (logger DEBUG ''Rotating page 180 degrees'') (\<lambda>_. ret (rotate_page pg 180))
      else if option = JStr ''rotate270'' then
        bind (logger DEBUG ''Rotating page 270 degrees counter-clockwise'') (\<lambda>_. ret (rotate_page pg 270))
      else if option = JStr ''flipV'' then
        bind (logger DEBUG ''Flipping page vertically'') (\<lambda>_.
          let pg1 = scale pg 1 (- 1) in ret (translate_y pg1 (mediabox_height pg1)))
      else if option = JStr ''flipH'' then
        bind (logger DEBUG ''Flipping page horizontally'') (\<lambda>_.
          let pg1 = scale pg (- 1) 1 in ret (translate_x pg1 (mediabox_width pg1)))
      else if option = JStr ''recursive'' then ret pg
      else bind (logger WARNING ''Unknown transformation option: '') (\<lambda>_. ret pg))"

fun apply_options :: "page \<Rightarrow> json list \<Rightarrow> page res" where
  "apply_options pg [] = ret pg"
| "apply_options pg (option # opts) =
     bind (apply_option pg option) (\<lambda>pg1. apply_options pg1 opts)"

definition apply_transformations :: "page \<Rightarrow> json list \<Rightarrow> page res" where
  "apply_transformations pg opts =
     (if opts = [] then ret pg
      else bind (logger INFO ''Applying transformations: '') (\<lambda>_. apply_options pg opts))"

subsection \<open>The converter and the world it runs in\<close>

datatype stdin_event = Line string | CtrlC

record image =
  mode :: string

text \<open>
  The fields of the \<^verbatim>\<open>PDFConverter\<close> object (\<open>writer\<close> holds the pages added so far)
  and the world outside: the file system, the lines still to come on standard input,
  and the outcomes of the external calls. \<open>read_json p\<close> is \<^verbatim>\<open>open(p)\<close> followed by
  \<^verbatim>\<open>json.load\<close>; \<open>write_pdf p pages\<close> is \<^verbatim>\<open>open(p, 'wb')\<close> followed by
  \<^verbatim>\<open>writer.write\<close>. An external call fails with an exception derived from
  \<^verbatim>\<open>Exception\<close>.
\<close>

record state =
  config_path :: string
  output_path :: string
  writer :: "page list"
  disk :: filesystem
  stdin :: "stdin_event list"
  read_json :: "string \<Rightarrow> exc + json"
  PdfReader :: "string \<Rightarrow> exc + page list"
  Image_open :: "string \<Rightarrow> exc + image"
  Image_save :: "image \<Rightarrow> string \<Rightarrow> exc option"
  write_pdf :: "string \<Rightarrow> page list \<Rightarrow> exc option"

text \<open>Computations that read and change the state.\<close>

type_synonym ('e, 'a) io = "state \<Rightarrow> ('e, 'a) result \<times> state"

definition io_ret :: "'a \<Rightarrow> ('e, 'a) io" where
  "io_ret x s = (ret x, s)"

definition io_raise :: "'e \<Rightarrow> ('e, 'a) io" where
  "io_raise e s = (raise e, s)"

definition io_log :: "level \<Rightarrow> string \<Rightarrow> ('e, unit) io" where
  "io_log lv msg s = (logger lv msg, s)"

definition io_bind :: "('e, 'a) io \<Rightarrow> ('a \<Rightarrow> ('e, 'b) io) \<Rightarrow> ('e, 'b) io" where
  "io_bind m f s =
     (case m s of
        ((Inl e, l), s1) \<Rightarrow> ((Inl e, l), s1)
      | ((Inr x, l), s1) \<Rightarrow> (case f x s1 of ((r, l'), s2) \<Rightarrow> ((r, l @ l'), s2)))"

text \<open>A computation that raises classes of \<^verbatim>\<open>Exception\<close> only, among all that can be raised.\<close>

definition io_exc :: "(exc, 'a) io \<Rightarrow> (raised, 'a) io" where
  "io_exc m s =
     (case m s of
        ((Inl e, l), s1) \<Rightarrow> ((Inl (Exception e), l), s1)
      | ((Inr x, l), s1) \<Rightarrow> ((Inr x, l), s1))"

subsection \<open>\<^verbatim>\<open>get_next_available_filename\<close>\<close>

definition candidate :: "string \<Rightarrow> nat \<Rightarrow> string" where
  "candidate filepath counter =
     path_div (path_parent (Path filepath))
       (path_stem (Path filepath) @ ''_'' @ show_nat counter @ path_suffix (Path filepath))"

text \<open>
  The loop of \<^verbatim>\<open>get_next_available_filename\<close>, from the value \<open>counter\<close> on. It ends
  because the file system is finite and no two counters give the same name (the
  termination proofs follow the definitions).
\<close>

function next_available :: "filesystem \<Rightarrow> string \<Rightarrow> nat \<Rightarrow> string" where
  "next_available fs filepath counter =
     (let new_path = candidate filepath counter in
      if \<not> path_exists fs new_path then new_path
      else next_available fs filepath (counter + 1))"
  by pat_completeness auto

definition get_next_available_filename :: "filesystem \<Rightarrow> string \<Rightarrow> string" where
  "get_next_available_filename fs filepath = next_available fs filepath 1"

subsection \<open>\<^verbatim>\<open>handle_existing_file\<close>\<close>

text \<open>
  \<^verbatim>\<open>input()\<close> returns the next line, raises \<^verbatim>\<open>KeyboardInterrupt\<close> when the user
  interrupts, and raises \<^verbatim>\<open>EOFError\<close> at the end of the input.
\<close>

definition py_input :: "stdin_event list \<Rightarrow> (raised + string) \<times> stdin_event list" where
  "py_input evs =
     (case evs of
        [] \<Rightarrow> (Inl (Exception EOFError), [])
      | Line s # rest \<Rightarrow> (Inr s, rest)
      | CtrlC # rest \<Rightarrow> (Inl KeyboardInterrupt, rest))"

definition menu :: "event list" where
  "menu =
     [Print (CHR 0x0A # ''Output file already exists. Choose an option:''),
      Print ''1. Overwrite existing file'',
      Print ''2. Use alternative filename: '',
      Print ''3. Stop processing'',
      Print ''Enter your choice (1/2/3): '']"

text \<open>
  The \<^verbatim>\<open>while True\<close> loop of the prompt. Only \<^verbatim>\<open>KeyboardInterrupt\<close> is handled
  inside; any other exception of \<^verbatim>\<open>input()\<close> leaves the method.
\<close>

function prompt ::
  "filesystem \<Rightarrow> string \<Rightarrow> stdin_event list \<Rightarrow> (raised, string option) result \<times> stdin_event list"
where
  "prompt fs out evs =
     (let suggested_name = get_next_available_filename fs out in
      case py_input evs of
        (Inl KeyboardInterrupt, rest) \<Rightarrow>
          ((Inr None, menu @ [Log INFO ''User interrupted the process'']), rest)
      | (Inl (Exception e), rest) \<Rightarrow> ((Inl (Exception e), menu), rest)
      | (Inr line, rest) \<Rightarrow>
          (let choice = strip line in
           if choice = ''1'' then
             ((Inr (Some out), menu @ [Log INFO ''User chose to overwrite existing file'']), rest)
           else if choice = ''2'' then
             ((Inr (Some suggested_name),
               menu @ [Log INFO ''User chose to use alternative filename: '']), rest)
           else if choice = ''3'' then
             ((Inr None, menu @ [Log INFO ''User chose to stop processing'']), rest)
           else
             (case prompt fs out rest of
                ((r, l), rest') \<Rightarrow>
                  ((r, menu @ [Print ''Invalid choice. Please enter 1, 2, or 3.''] @ l), rest'))))"
  by pat_completeness auto

definition handle_existing_file :: "(raised, string option) io" where
  "handle_existing_file s =
     (if \<not> path_exists (disk s) (Path (output_path s)) then (ret (Some (output_path s)), s)
      else
        (case prompt (disk s) (output_path s) (stdin s) of
           ((r, l), rest) \<Rightarrow>
             ((r, Log WARNING ''Output file already exists: '' # l), s\<lparr>stdin := rest\<rparr>)))"

subsection \<open>\<^verbatim>\<open>load_config\<close>\<close>

definition load_config :: "(exc, json) io" where
  "load_config s =
     (case read_json s (config_path s) of
        Inl e \<Rightarrow>
          (if e = JSONDecodeError then
             (bind (logger ERROR ''Error decoding JSON config: '') (\<lambda>_. raise e), s)
           else if e = FileNotFoundError then
             (bind (logger ERROR ''Configuration file not found: '') (\<lambda>_. raise e), s)
           else (raise e, s))
      | Inr config \<Rightarrow>
          (case config of
             JObj kvs \<Rightarrow>
               if map_of kvs ''files'' = None then (raise ValueError, s)
               else (bind (logger INFO ''Successfully loaded configuration from '') (\<lambda>_. ret config), s)
           | _ \<Rightarrow> (raise ValueError, s)))"

subsection \<open>\<^verbatim>\<open>convert_to_pdf\<close>\<close>

definition image_extensions :: "string set" where
  "image_extensions = {''.png'', ''.jpg'', ''.jpeg'', ''.tiff'', ''.bmp''}"

definition pypdf_PdfReader :: "string \<Rightarrow> (exc, page list) io" where
  "pypdf_PdfReader p s = (case PdfReader s p of Inl e \<Rightarrow> (raise e, s) | Inr pages \<Rightarrow> (ret pages, s))"

definition PIL_Image_open :: "string \<Rightarrow> (exc, image) io" where
  "PIL_Image_open p s = (case Image_open s p of Inl e \<Rightarrow> (raise e, s) | Inr img \<Rightarrow> (ret img, s))"

text \<open>\<^verbatim>\<open>img.save\<close> creates the file when it succeeds.\<close>

definition img_save :: "image \<Rightarrow> string \<Rightarrow> (exc, unit) io" where
  "img_save img p s =
     (case Image_save s img p of
        Some e \<Rightarrow> (raise e, s)
      | None \<Rightarrow> (ret (), s\<lparr>disk := fs_create p (disk s)\<rparr>))"

definition os_remove :: "string \<Rightarrow> (exc, unit) io" where
  "os_remove p s =
     (if path_exists (disk s) p then (ret (), s\<lparr>disk := fs_remove p (disk s)\<rparr>)
      else (raise FileNotFoundError, s))"

definition convert_to_pdf :: "string \<Rightarrow> (exc, page list option) io" where
  "convert_to_pdf file_path0 =
     (let file_path = Path file_path0 in
      if lower (path_suffix file_path) = ''.pdf'' then
        io_bind (io_log DEBUG ''Processing PDF file directly: '') (\<lambda>_.
        io_bind (pypdf_PdfReader file_path) (\<lambda>reader. io_ret (Some reader)))
      else if lower (path_suffix file_path) \<in> image_extensions then
        io_bind (io_log INFO ''Converting image to PDF: '') (\<lambda>_.
        io_bind (PIL_Image_open file_path) (\<lambda>img0.
        io_bind (if mode img0 = ''RGBA''
                 then io_bind (io_log DEBUG ''Converting RGBA image to RGB'') (\<lambda>_.
                        io_ret (img0\<lparr>mode := ''RGB''\<rparr>))
                 else io_ret img0) (\<lambda>img.
        io_bind (case with_suffix file_path ''.temp.pdf'' of
                   Inl e \<Rightarrow> io_raise e | Inr p \<Rightarrow> io_ret p) (\<lambda>pdf_path.
        io_bind (img_save img pdf_path) (\<lambda>_.
        io_bind (pypdf_PdfReader pdf_path) (\<lambda>reader.
        io_bind (os_remove pdf_path) (\<lambda>_.
          io_ret (Some reader))))))))
      else
        io_bind (io_log WARNING ''Unsupported file type: '') (\<lambda>_. io_ret None))"

subsection \<open>\<^verbatim>\<open>process\<close>\<close>

definition add_page :: "page \<Rightarrow> (exc, unit) io" where
  "add_page pg s = (ret (), s\<lparr>writer := writer s @ [pg]\<rparr>)"

fun add_pages :: "json list \<Rightarrow> page list \<Rightarrow> (exc, unit) io" where
  "add_pages opts [] = io_ret ()"
| "add_pages opts (pg # pgs) =
     io_bind (io_log DEBUG ''Processing page '') (\<lambda>_.
     io_bind (\<lambda>s. (apply_transformations pg opts, s)) (\<lambda>transformed_page.
     io_bind (add_page transformed_page) (\<lambda>_.
       add_pages opts pgs)))"

text \<open>The body of the loop over \<^verbatim>\<open>files_with_options\<close>. A reader object is true.\<close>

definition process_file :: "resolved \<Rightarrow> (exc, unit) io" where
  "process_file file_info =
     io_bind (io_log INFO ''Processing file: '') (\<lambda>_.
     io_bind (if options file_info \<noteq> [] then io_log INFO ''  With options: '' else io_ret ()) (\<lambda>_.
     io_bind (convert_to_pdf (path file_info)) (\<lambda>pdf_reader.
       case pdf_reader of
         Some pages \<Rightarrow>
           io_bind (io_log DEBUG ''Successfully loaded PDF with pages'') (\<lambda>_.
             add_pages (options file_info) pages)
       | None \<Rightarrow> io_log ERROR ''Failed to convert file: '')))"

fun process_all :: "resolved list \<Rightarrow> (exc, unit) io" where
  "process_all [] = io_ret ()"
| "process_all (file_info # rest) =
     io_bind (process_file file_info) (\<lambda>_. process_all rest)"

text \<open>\<^verbatim>\<open>config['files']\<close>.\<close>

fun py_getitem :: "json \<Rightarrow> string \<Rightarrow> json res" where
  "py_getitem (JObj kvs) k = (case map_of kvs k of None \<Rightarrow> raise KeyError | Some v \<Rightarrow> ret v)"
| "py_getitem j k = raise TypeError"

text \<open>
  \<^verbatim>\<open>open(self.output_path, 'wb')\<close> and \<^verbatim>\<open>self.writer.write\<close>. Whether a failed write
  leaves a partial file is not modelled.
\<close>

definition write_output :: "(exc, unit) io" where
  "write_output s =
     (case write_pdf s (output_path s) (writer s) of
        Some e \<Rightarrow> (raise e, s)
      | None \<Rightarrow> (ret (), s\<lparr>disk := fs_create (Path (output_path s)) (disk s)\<rparr>))"

text \<open>
  The \<^verbatim>\<open>try\<close> block of \<^verbatim>\<open>process\<close>, in two parts: first the statements that follow
  the choice of the output path, none of which handles an exception; then the block
  as a whole.
\<close>

definition process_config :: "(exc, bool) io" where
  "process_config =
     io_bind load_config (\<lambda>config.
     io_bind (\<lambda>s. (py_getitem config ''files'', s)) (\<lambda>files_array.
     io_bind (\<lambda>s. (process_files_array (disk s) files_array None, s)) (\<lambda>files_with_options.
     io_bind (io_log INFO ''Processing files in total'') (\<lambda>_.
     io_bind (process_all files_with_options) (\<lambda>_.
     io_bind (io_log INFO ''Writing final PDF to: '') (\<lambda>_.
     io_bind write_output (\<lambda>_.
     io_bind (io_log INFO ''PDF creation completed successfully'') (\<lambda>_.
       io_ret True))))))))"

definition process_try :: "(raised, bool) io" where
  "process_try =
     io_bind handle_existing_file (\<lambda>final_output_path.
       case final_output_path of
         None \<Rightarrow>
           io_bind (io_log INFO ''Processing stopped due to output file handling'') (\<lambda>_.
             io_ret False)
       | Some final \<Rightarrow>
           io_bind (\<lambda>s. (ret (), s\<lparr>output_path := final\<rparr>)) (\<lambda>_.
             io_exc process_config))"

text \<open>
  \<^verbatim>\<open>except Exception\<close>: an exception of a class derived from \<^verbatim>\<open>Exception\<close> is logged
  and turned into \<^verbatim>\<open>False\<close>; anything else would leave \<^verbatim>\<open>process\<close>.
\<close>

definition process :: "(raised, bool) io" where
  "process s =
     (case process_try s of
        ((Inl (Exception e), l), s1) \<Rightarrow> ((Inr False, l @ [Log ERROR ''Error during processing: '']), s1)
      | ((Inl KeyboardInterrupt, l), s1) \<Rightarrow> ((Inl KeyboardInterrupt, l), s1)
      | ((Inr b, l), s1) \<Rightarrow> ((Inr b, l), s1))"

subsection \<open>Files that fail to convert\<close>



text \<open>Two states with the same image and PDF codecs.\<close>

definition same_codecs :: "state \<Rightarrow> state \<Rightarrow> bool" where
  "same_codecs s s' =
     (PdfReader s = PdfReader s' \<and> Image_open s = Image_open s' \<and> Image_save s = Image_save s')"

subsection \<open>Sample data\<close>

definition sample_fs :: filesystem where
  "sample_fs =
     [(''a.pdf'', File), (''x.png'', File), (''notes.txt'', File),
      (''d'', Dir [(''z.pdf'', File),
                   (''a'', Dir [(''b.pdf'', File), (''z'', Dir [(''q.pdf'', File)])]),
                   (''a.b'', Dir [(''c.pdf'', File)])])]"

text \<open>
  A run on \<^verbatim>\<open>{"files": ["notes.txt"]}\<close> with the output path free, images that open
  and save, no PDF that can be read, and a write that succeeds.
\<close>

definition sample_state :: state where
  "sample_state =
     \<lparr>config_path = ''config.json'', output_path = ''out.pdf'', writer = [],
      disk = sample_fs, stdin = [],
      read_json = (\<lambda>p. if p = ''config.json''
                        then Inr (JObj [(''files'', JArr [JStr ''notes.txt''])])
                        else Inl FileNotFoundError),
      PdfReader = (\<lambda>p. Inl LibraryError),
      Image_open = (\<lambda>p. Inr \<lparr>mode = ''RGBA''\<rparr>),
      Image_save = (\<lambda>img p. None),
      write_pdf = (\<lambda>p pages. None)\<rparr>"

definition blank_page :: page where
  "blank_page = \<lparr>rotation = 0, mediabox_width = 595, mediabox_height = 842,
                  ctm = (1, 0, 0, 1, 0, 0)\<rparr>"

text \<open>The same, where every PDF reads as one blank page.\<close>

definition sample_state_readable :: state where
  "sample_state_readable = sample_state\<lparr>PdfReader := (\<lambda>p. Inr [blank_page])\<rparr>"

text \<open>
  The same as \<open>sample_state\<close>, on
  \<^verbatim>\<open>{"files": [{"files": ["a.pdf", {"files": ["x.png"]}]}]}\<close>.
\<close>

definition sample_state_nested :: state where
  "sample_state_nested =
     sample_state\<lparr>read_json := (\<lambda>p. Inr (JObj [(''files'',
        JArr [JObj [(''files'', JArr [JStr ''a.pdf'', JObj [(''files'', JArr [JStr ''x.png''])]])]])]))\<rparr>"

text \<open>The same as \<open>sample_state\<close>, with no configuration file.\<close>

definition sample_state_no_config :: state where
  "sample_state_no_config = sample_state\<lparr>config_path := ''missing.json''\<rparr>"




section \<open>Termination of the two loops\<close>

text \<open>
  A candidate name is the parent, the stem, an underscore, the counter in decimal and the
  suffix. Neither the stem nor the suffix nor the digits hold a slash, so the name is one
  path component, and the decimal notation is injective: distinct counters give distinct
  candidates.
\<close>

lemma split_slash_ne: "split_slash s \<noteq> []"
  by (induction s) (auto split: list.splits)

lemma split_slash_no_slash: "p \<in> set (split_slash s) \<Longrightarrow> CHR ''/'' \<notin> set p"
  by (induction s arbitrary: p) (auto split: list.splits if_splits simp: split_slash_ne)

lemma split_slash_id: "CHR ''/'' \<notin> set s \<Longrightarrow> split_slash s = [s]"
  by (induction s) auto

lemma path_name_no_slash: "CHR ''/'' \<notin> set (path_name p)"
proof (cases "path_parts p = []")
  case True then show ?thesis by (simp add: path_name_def)
next
  case False
  then have "last (path_parts p) \<in> set (path_parts p)" by simp
  then have "last (path_parts p) \<in> set (split_slash p)" by (simp add: path_parts_def)
  then show ?thesis using False by (simp add: path_name_def split_slash_no_slash)
qed

lemma path_stem_no_slash: "CHR ''/'' \<notin> set (path_stem p)"
  using path_name_no_slash [of p]
  by (auto simp: path_stem_def Let_def split: option.splits dest: in_set_takeD)

lemma path_suffix_no_slash: "CHR ''/'' \<notin> set (path_suffix p)"
  using path_name_no_slash [of p]
  by (auto simp: path_suffix_def Let_def split: option.splits dest: in_set_dropD)

lemma digit_char_no_slash: "d < 10 \<Longrightarrow> digit_char d \<noteq> CHR ''/''"
proof -
  assume "d < 10"
  then have "d \<in> {0,1,2,3,4,5,6,7,8,9}" by auto
  then show ?thesis by (auto simp: digit_char_def)
qed

lemma show_nat_no_slash: "CHR ''/'' \<notin> set (show_nat n)"
proof (induction n rule: show_nat.induct)
  case (1 n)
  show ?case
  proof (cases "n < 10")
    case True
    then show ?thesis using digit_char_no_slash [of n] by (subst show_nat.simps) auto
  next
    case False
    have "n mod 10 < 10" by simp
    then have "digit_char (n mod 10) \<noteq> CHR ''/''" by (rule digit_char_no_slash)
    then show ?thesis using False 1 by (subst show_nat.simps) auto
  qed
qed

lemma digit_char_inj: "d < 10 \<Longrightarrow> d' < 10 \<Longrightarrow> digit_char d = digit_char d' \<Longrightarrow> d = d'"
proof -
  assume "d < 10" "d' < 10" and eq: "digit_char d = digit_char d'"
  then have "d \<in> {0,1,2,3,4,5,6,7,8,9}" "d' \<in> {0,1,2,3,4,5,6,7,8,9}" by auto
  then show ?thesis using eq by (auto simp: digit_char_def)
qed

lemma show_nat_ne: "show_nat n \<noteq> []"
  by (subst show_nat.simps) simp

lemma show_nat_inj: "show_nat m = show_nat n \<Longrightarrow> m = n"
proof (induction m arbitrary: n rule: show_nat.induct)
  case (1 m)
  show ?case
  proof (cases "m < 10")
    case m: True
    show ?thesis
    proof (cases "n < 10")
      case True
      then show ?thesis using m "1.prems" digit_char_inj [of m n]
        by (simp add: show_nat.simps [of m] show_nat.simps [of n])
    next
      case False
      then show ?thesis using m "1.prems" show_nat_ne [of "n div 10"]
        by (simp add: show_nat.simps [of m] show_nat.simps [of n])
    qed
  next
    case m: False
    show ?thesis
    proof (cases "n < 10")
      case True
      then show ?thesis using m "1.prems" show_nat_ne [of "m div 10"]
        by (simp add: show_nat.simps [of m] show_nat.simps [of n])
    next
      case False
      then have eq: "show_nat (m div 10) = show_nat (n div 10)"
        and dg: "digit_char (m mod 10) = digit_char (n mod 10)"
        using m "1.prems" by (simp_all add: show_nat.simps [of m] show_nat.simps [of n])
      have "m div 10 = n div 10" using "1.IH" [OF m eq] .
      moreover have "m mod 10 = n mod 10" using dg digit_char_inj [of "m mod 10" "n mod 10"] by simp
      ultimately show ?thesis by (metis div_mult_mod_eq)
    qed
  qed
qed

lemma join_slash_snoc: "join_slash (ps @ [n]) = (if ps = [] then n else join_slash ps @ ''/'' @ n)"
  by (induction ps rule: join_slash.induct) auto

lemma path_div_name:
  assumes "CHR ''/'' \<notin> set nm" "nm \<noteq> []" "nm \<noteq> ''.''"
  shows "path_div a nm = path_root a @ join_slash (path_parts a @ [nm])"
proof -
  have "path_root nm = []" using assms by (cases nm) (auto simp: path_root_def take_Suc_conv_app_nth split: list.splits)
  moreover have "path_parts nm = [nm]" using assms by (simp add: path_parts_def split_slash_id)
  ultimately show ?thesis by (simp add: path_div_def path_fmt_def)
qed

lemma candidate_inj: "candidate fp c = candidate fp c' \<Longrightarrow> c = c'"
proof -
  assume eq: "candidate fp c = candidate fp c'"
  let ?nm = "\<lambda>k. path_stem (Path fp) @ ''_'' @ show_nat k @ path_suffix (Path fp)"
  have ok: "CHR ''/'' \<notin> set (?nm k) \<and> ?nm k \<noteq> [] \<and> ?nm k \<noteq> ''.''" for k
    using path_stem_no_slash path_suffix_no_slash show_nat_no_slash
    by (auto simp: append_eq_Cons_conv)
  have "candidate fp k = path_root (path_parent (Path fp)) @ join_slash (path_parts (path_parent (Path fp)) @ [?nm k])" for k
    unfolding candidate_def using ok [of k] by (intro path_div_name) auto
  then have "join_slash (path_parts (path_parent (Path fp)) @ [?nm c]) = join_slash (path_parts (path_parent (Path fp)) @ [?nm c'])"
    using eq by simp
  then have "?nm c = ?nm c'" by (simp add: join_slash_snoc split: if_splits)
  then show ?thesis using show_nat_inj by simp
qed

lemma finite_candidates: "finite {k. candidate fp k \<in> S}" if "finite S"
proof -
  have "inj (candidate fp)" by (rule injI) (rule candidate_inj)
  then have "finite (candidate fp -` S)" using that by (simp add: finite_vimageI)
  then show ?thesis by (simp add: vimage_def)
qed

termination next_available
proof (relation "measure (\<lambda>(fs, fp, c). card {k. c \<le> k \<and> candidate fp k \<in> fst ` set fs})")
  show "wf (measure (\<lambda>(fs, fp, c). card {k. c \<le> k \<and> candidate fp k \<in> fst ` set fs}))" by simp
next
  fix fs :: filesystem and filepath counter new_path
  assume np: "new_path = candidate filepath counter" and ex: "\<not> \<not> path_exists fs new_path"
  let ?A = "\<lambda>c. {k. c \<le> k \<and> candidate filepath k \<in> fst ` set fs}"
  have fin: "finite (?A counter)"
    using finite_candidates [of "fst ` set fs" filepath] by simp
  have "candidate filepath counter \<in> fst ` set fs"
    using np ex by (auto simp: path_exists_def map_of_eq_None_iff)
  then have "counter \<in> ?A counter" "counter \<notin> ?A (counter + 1)" by auto
  moreover have "?A (counter + 1) \<subseteq> ?A counter" by auto
  ultimately have "?A (counter + 1) \<subset> ?A counter" by blast
  then have "card (?A (counter + 1)) < card (?A counter)" using fin by (rule psubset_card_mono [rotated])
  then show "((fs, filepath, counter + 1), (fs, filepath, counter))
      \<in> measure (\<lambda>(fs, fp, c). card {k. c \<le> k \<and> candidate fp k \<in> fst ` set fs})"
    by simp
qed

lemma py_input_shorter: "py_input evs = (Inr txt, rest) \<Longrightarrow> length rest < length evs"
  by (auto simp: py_input_def split: list.splits stdin_event.splits)

termination prompt
  by (relation "measure (\<lambda>(fs, out, evs). length evs)") (auto dest: py_input_shorter [OF sym])

declare next_available.simps [simp del]

declare prompt.simps [simp del]

section \<open>Sequencing lemmas\<close>

lemma bind_Inr [simp]: "bind (Inr x, l) f = (fst (f x), l @ snd (f x))"
  by (simp add: bind_def split: prod.splits)

lemma bind_Inl [simp]: "bind (Inl e, l) f = (Inl e, l)"
  by (simp add: bind_def)

lemma fst_bind: "fst (bind m f) = (case fst m of Inl e \<Rightarrow> Inl e | Inr x \<Rightarrow> fst (f x))"
  by (cases m) (auto simp: bind_def split: sum.splits prod.splits)

lemma snd_bind:
  "snd (bind m f) = (case fst m of Inl e \<Rightarrow> snd m | Inr x \<Rightarrow> snd m @ snd (f x))"
  by (cases m) (auto simp: bind_def split: sum.splits prod.splits)

lemmas result_defs = ret_def raise_def logger_def

lemma io_bind_value:
  "fst (fst (io_bind m f s)) =
     (case fst (fst (m s)) of Inl e \<Rightarrow> Inl e | Inr x \<Rightarrow> fst (fst (f x (snd (m s)))))"
  by (auto simp: io_bind_def split: prod.splits sum.splits)

lemma io_bind_state:
  "snd (io_bind m f s) =
     (case fst (fst (m s)) of Inl e \<Rightarrow> snd (m s) | Inr x \<Rightarrow> snd (f x (snd (m s))))"
  by (auto simp: io_bind_def split: prod.splits sum.splits)

lemma io_bind_trace:
  "snd (fst (io_bind m f s)) =
     (case fst (fst (m s)) of
        Inl e \<Rightarrow> snd (fst (m s))
      | Inr x \<Rightarrow> snd (fst (m s)) @ snd (fst (f x (snd (m s)))))"
  by (auto simp: io_bind_def split: prod.splits sum.splits)

lemma io_exc_value:
  "fst (fst (io_exc m s)) =
     (case fst (fst (m s)) of Inl e \<Rightarrow> Inl (Exception e) | Inr x \<Rightarrow> Inr x)"
  by (auto simp: io_exc_def split: prod.splits sum.splits)

lemmas io_defs = io_ret_def io_raise_def io_log_def

section \<open>Path expansion and resolution\<close>

lemma get_files_from_path_str:
  "\<exists>files. fst (get_files_from_path fs (JStr s) r) = Inr files"
  by (simp add: Let_def result_defs split: option.splits node.splits)

lemma get_files_from_path_expand:
  "fst (get_files_from_path fs (JStr s) r) = Inr (expand fs s r)"
  using get_files_from_path_str [of fs s r] by (auto simp: expand_def)

lemma get_files_from_path_other:
  "\<not> is_JStr x \<Longrightarrow> fst (get_files_from_path fs x r) = Inl TypeError"
  by (cases x) (simp_all add: result_defs)

declare get_files_from_path.simps [simp del]

lemma expand_paths_strings:
  "fst (expand_paths fs cur r (map JStr qs))
     = Inr (concat (map (\<lambda>p. map (\<lambda>file. \<lparr>path = file, options = cur\<rparr>) (expand fs p r)) qs))"
  by (induction qs) (simp_all add: fst_bind get_files_from_path_expand result_defs)

lemma expand_paths_options:
  "fst (expand_paths fs cur r xs) = Inr rs \<Longrightarrow> e \<in> set rs \<Longrightarrow> options e = cur"
proof (induction xs arbitrary: rs)
  case Nil
  then show ?case by (simp add: result_defs)
next
  case (Cons x xs)
  from Cons.prems(1) obtain files rest where
    "fst (expand_paths fs cur r xs) = Inr rest"
    "rs = map (\<lambda>file. \<lparr>path = file, options = cur\<rparr>) files @ rest"
    by (auto simp: fst_bind result_defs split: sum.splits)
  then show ?case using Cons.IH [of rest] Cons.prems(2) by auto
qed

lemma expand_paths_bad:
  "x \<in> set xs \<Longrightarrow> \<not> is_JStr x \<Longrightarrow> fst (expand_paths fs cur r xs) = Inl TypeError"
proof (induction xs)
  case Nil
  then show ?case by simp
next
  case (Cons y ys)
  show ?case
  proof (cases "is_JStr y")
    case True
    then obtain s where y: "y = JStr s" by (cases y) auto
    with Cons have "fst (expand_paths fs cur r ys) = Inl TypeError" by auto
    then show ?thesis by (simp add: y fst_bind get_files_from_path_expand)
  next
    case False
    then show ?thesis by (simp add: fst_bind get_files_from_path_other)
  qed
qed

lemma py_iter_error: "fst (py_iter v) = Inl e \<Longrightarrow> e = TypeError"
  by (cases v) (simp_all add: result_defs)

lemma merge_options_value:
  "fst (merge_options P item) =
     (case map_of item ''options'' of
        None \<Rightarrow> Inr (map JStr P)
      | Some v \<Rightarrow>
          (case fst (py_iter v) of
             Inl e \<Rightarrow> Inl e
           | Inr C \<Rightarrow> Inr (map JStr P @ filter (\<lambda>c. c \<notin> set (map JStr P)) C)))"
  by (simp add: merge_options_def Let_def fst_bind result_defs split: option.splits sum.splits)

lemma merge_options_error: "fst (merge_options P item) = Inl e \<Longrightarrow> e = TypeError"
  by (auto simp: merge_options_value split: option.splits sum.splits dest: py_iter_error)

lemma py_sorted_strings: "py_sorted (map JStr ps) = ret (map JStr (sort ps))"
proof -
  have "map un_JStr (map JStr ps) = ps" by (induction ps) auto
  then show ?thesis by (simp add: py_sorted_def)
qed

lemma py_sorted_cases:
  "fst (py_sorted xs) = Inl TypeError \<or> (\<exists>ys. fst (py_sorted xs) = Inr ys \<and> (\<exists>x \<in> set xs. \<not> is_JStr x) \<and> set ys = set xs)
   \<or> (\<forall>x \<in> set xs. is_JStr x)"
  by (auto simp: py_sorted_def result_defs)

lemma process_item_value:
  "fst (process_item fs P (JObj item)) =
     (case fst (merge_options P item) of
        Inl e \<Rightarrow> Inl e
      | Inr cur \<Rightarrow>
          (case map_of item ''files'' of
             None \<Rightarrow> Inr []
           | Some v \<Rightarrow>
               (case fst (py_iter v) of
                  Inl e \<Rightarrow> Inl e
                | Inr xs \<Rightarrow>
                    (case fst (py_sorted xs) of
                       Inl e \<Rightarrow> Inl e
                     | Inr sorted_paths \<Rightarrow>
                         fst (expand_paths fs cur (JStr ''recursive'' \<in> set cur) sorted_paths)))))"
  by (simp add: fst_bind Let_def result_defs split: sum.splits option.splits)

lemma process_item_string:
  "fst (process_item fs P (JStr s)) =
     Inr (map (\<lambda>file. \<lparr>path = file, options = map JStr P\<rparr>) (expand fs s False))"
  by (simp add: fst_bind get_files_from_path_expand result_defs)

declare process_item.simps [simp del]

lemma process_items_append:
  "fst (process_items fs P (xs @ ys)) =
     (case fst (process_items fs P xs) of
        Inl e \<Rightarrow> Inl e
      | Inr a \<Rightarrow>
          (case fst (process_items fs P ys) of Inl e \<Rightarrow> Inl e | Inr b \<Rightarrow> Inr (a @ b)))"
  by (induction xs) (auto simp: fst_bind result_defs split: sum.splits)

lemma process_item_bad_files:
  assumes "map_of item ''files'' = Some (JArr xs)" and "x \<in> set xs" and "\<not> is_JStr x"
  shows "fst (process_item fs P (JObj item)) = Inl TypeError"
proof (cases "fst (merge_options P item)")
  case (Inl e)
  then show ?thesis using merge_options_error [of P item e] by (simp add: process_item_value)
next
  case (Inr cur)
  have "fst (py_sorted xs) = Inl TypeError
    \<or> (\<exists>ys. fst (py_sorted xs) = Inr ys \<and> set ys = set xs)"
    using py_sorted_cases [of xs] assms by auto
  then show ?thesis
  proof
    assume "fst (py_sorted xs) = Inl TypeError"
    then show ?thesis using Inr assms(1) by (simp add: process_item_value result_defs)
  next
    assume "\<exists>ys. fst (py_sorted xs) = Inr ys \<and> set ys = set xs"
    then obtain ys where ys: "fst (py_sorted xs) = Inr ys" "set ys = set xs" by blast
    then have "fst (expand_paths fs cur (JStr ''recursive'' \<in> set cur) ys) = Inl TypeError"
      using assms expand_paths_bad by auto
    then show ?thesis using Inr assms(1) ys by (simp add: process_item_value result_defs)
  qed
qed

lemma process_items_bad:
  "item \<in> set items \<Longrightarrow> \<exists>e. fst (process_item fs P item) = Inl e
     \<Longrightarrow> \<exists>e. fst (process_items fs P items) = Inl e"
  by (induction items) (auto simp: fst_bind result_defs split: sum.splits)

lemma sorted_map_fst:
  "sorted (ts :: ('a::linorder \<times> 'b::linorder) list) \<Longrightarrow> sorted (map fst ts)"
  by (induction ts) (auto simp: less_eq_prod_def)

lemma walk_files_listings:
  "walk_files (os_walk dirpath nd)
     = concat (map (\<lambda>(root, names). map (path_div root) names) (directory_listings dirpath nd))"
  by (simp add: walk_files_def directory_listings_def comp_def case_prod_unfold)

lemma directory_listings_roots:
  "map fst (directory_listings dirpath nd) = map fst (sort (os_walk dirpath nd))"
  by (simp add: directory_listings_def comp_def case_prod_unfold)

text \<open>
  Claim C1, as stated: the effective options of the files of an entry are the inherited
  options \<open>P\<close> followed by the options \<open>C\<close> of the entry that are not in \<open>P\<close>, and
  hold no duplicates. The last part fails: the options of the entry are tested against
  \<open>P\<close> only, so an option that the entry itself lists twice stays twice. Here
  \<open>P = []\<close> and \<open>C = ["flipH", "flipH"]\<close>.
\<close>

theorem merged_options_duplicates:
  "fst (process_files_array sample_fs
          (JArr [JObj [(''files'', JArr [JStr ''a.pdf'']),
                       (''options'', JArr [JStr ''flipH'', JStr ''flipH''])]]) (Some []))
     = Inr [\<lparr>path = ''a.pdf'', options = [JStr ''flipH'', JStr ''flipH'']\<rparr>]
   \<and> \<not> distinct (options \<lparr>path = ''a.pdf'', options = [JStr ''flipH'', JStr ''flipH'']\<rparr>)"
  by code_simp

text \<open>
  Claim C1, amended: the effective options of every file emitted from an entry with
  options \<open>C\<close> are \<open>P\<close> followed by the elements of \<open>C\<close> that are not in \<open>P\<close>, in the
  order of \<open>C\<close>; they hold no duplicates whenever neither \<open>P\<close> nor \<open>C\<close> does. With
  \<open>P = ["a", "b"]\<close> and \<open>C = ["b", "c"]\<close> they are \<open>["a", "b", "c"]\<close>.
\<close>

theorem merged_options:
  assumes "map_of item ''options'' = Some v" and "fst (py_iter v) = Inr C"
    and "fst (process_item fs P (JObj item)) = Inr rs" and "r \<in> set rs"
  shows "options r = map JStr P @ filter (\<lambda>c. c \<notin> set (map JStr P)) C
    \<and> (distinct P \<and> distinct C \<longrightarrow> distinct (options r))"
proof -
  let ?cur = "map JStr P @ filter (\<lambda>c. c \<notin> set (map JStr P)) C"
  have cur: "fst (merge_options P item) = Inr ?cur"
    using assms(1,2) by (simp add: merge_options_value)
  have opts: "options r = ?cur"
  proof (cases "map_of item ''files''")
    case None
    then show ?thesis using assms(3,4) cur by (simp add: process_item_value)
  next
    case (Some w)
    then obtain ys where "fst (expand_paths fs ?cur (JStr ''recursive'' \<in> set ?cur) ys) = Inr rs"
      using assms(3) cur by (auto simp: process_item_value split: sum.splits)
    then show ?thesis using assms(4) by (rule expand_paths_options)
  qed
  have "distinct ?cur" if "distinct P" "distinct C"
    using that by (auto simp: distinct_map inj_on_def)
  then show ?thesis using opts by simp
qed

theorem merged_options_witness:
  "map_of [(''files'', JArr [JStr ''a.pdf'']), (''options'', JArr [JStr ''b'', JStr ''c''])] ''options''
      = Some (JArr [JStr ''b'', JStr ''c''])
   \<and> fst (py_iter (JArr [JStr ''b'', JStr ''c''])) = Inr [JStr ''b'', JStr ''c'']
   \<and> fst (process_item sample_fs [''a'', ''b'']
        (JObj [(''files'', JArr [JStr ''a.pdf'']), (''options'', JArr [JStr ''b'', JStr ''c''])]))
      = Inr [\<lparr>path = ''a.pdf'', options = [JStr ''a'', JStr ''b'', JStr ''c'']\<rparr>]
   \<and> distinct [JStr ''a'', JStr ''b'', JStr ''c'']"
proof -
  let ?item = "[(''files'', JArr [JStr ''a.pdf'']), (''options'', JArr [JStr ''b'', JStr ''c''])]"
  let ?r = "\<lparr>path = ''a.pdf'', options = [JStr ''a'', JStr ''b'', JStr ''c'']\<rparr>"
  have h1: "map_of ?item ''options'' = Some (JArr [JStr ''b'', JStr ''c''])" by simp
  have h2: "fst (py_iter (JArr [JStr ''b'', JStr ''c''])) = Inr [JStr ''b'', JStr ''c'']"
    by (simp add: result_defs)
  have h3: "fst (process_item sample_fs [''a'', ''b''] (JObj ?item)) = Inr [?r]"
    by code_simp
  have h4: "?r \<in> set [?r]" by simp
  have d: "distinct [''a'', ''b'']" "distinct [JStr ''b'', JStr ''c'']" by simp_all
  from merged_options [OF h1 h2 h3 h4] d have "distinct (options ?r)" by blast
  then show ?thesis using h1 h2 h3 by simp
qed

text \<open>
  Claim C4. Expanding an existing directory recursively returns the concatenation of
  the per-directory listings: the directories come in the lexicographic order of their
  paths, the files of each directory in the lexicographic order of their names, and
  every directory of the walk is listed once. The result is not a sorted list of paths
  in general: in \<open>sample_fs\<close>, \<^verbatim>\<open>d/z.pdf\<close> comes before \<^verbatim>\<open>d/a/b.pdf\<close>.
\<close>

theorem recursive_expansion:
  assumes "map_of fs (Path d) = Some (Dir es)"
  shows "fst (get_files_from_path fs (JStr d) True)
       = Inr (concat (map (\<lambda>(root, names). map (path_div root) names)
                (directory_listings (Path d) (Dir es))))
    \<and> sorted (map fst (directory_listings (Path d) (Dir es)))
    \<and> (\<forall>e \<in> set (directory_listings (Path d) (Dir es)). sorted (snd e))
    \<and> set (directory_listings (Path d) (Dir es))
        = (\<lambda>(root, dirs, names). (root, sort names)) ` set (os_walk (Path d) (Dir es))
    \<and> length (directory_listings (Path d) (Dir es)) = length (os_walk (Path d) (Dir es))
    \<and> (\<exists>fs' d' files. fst (get_files_from_path fs' (JStr d') True) = Inr files
          \<and> \<not> sorted files)"
proof -
  have 1: "fst (get_files_from_path fs (JStr d) True)
       = Inr (concat (map (\<lambda>(root, names). map (path_div root) names)
                (directory_listings (Path d) (Dir es))))"
    using assms
    by (simp add: get_files_from_path.simps Let_def result_defs flip: walk_files_listings)
  have 2: "sorted (map fst (directory_listings (Path d) (Dir es)))"
    unfolding directory_listings_roots by (rule sorted_map_fst) (rule sorted_sort)
  have 3: "\<forall>e \<in> set (directory_listings (Path d) (Dir es)). sorted (snd e)"
    by (auto simp: directory_listings_def)
  have 4: "set (directory_listings (Path d) (Dir es))
        = (\<lambda>(root, dirs, names). (root, sort names)) ` set (os_walk (Path d) (Dir es))"
    by (simp add: directory_listings_def del: os_walk.simps)
  have 5: "length (directory_listings (Path d) (Dir es)) = length (os_walk (Path d) (Dir es))"
    by (simp add: directory_listings_def del: os_walk.simps)
  have "fst (get_files_from_path sample_fs (JStr ''d'') True)
      = Inr [''d/z.pdf'', ''d/a/b.pdf'', ''d/a.b/c.pdf'', ''d/a/z/q.pdf'']"
    by code_simp
  moreover have "\<not> sorted [''d/z.pdf'', ''d/a/b.pdf'', ''d/a.b/c.pdf'', ''d/a/z/q.pdf'']"
    by code_simp
  ultimately have 6: "\<exists>fs' d' files. fst (get_files_from_path fs' (JStr d') True) = Inr files
          \<and> \<not> sorted files" by blast
  from 1 2 3 4 5 6 show ?thesis by blast
qed

theorem recursive_expansion_witness:
  "map_of sample_fs (Path ''d'')
      = Some (Dir [(''z.pdf'', File),
                   (''a'', Dir [(''b.pdf'', File), (''z'', Dir [(''q.pdf'', File)])]),
                   (''a.b'', Dir [(''c.pdf'', File)])])
   \<and> directory_listings (Path ''d'')
        (Dir [(''z.pdf'', File),
              (''a'', Dir [(''b.pdf'', File), (''z'', Dir [(''q.pdf'', File)])]),
              (''a.b'', Dir [(''c.pdf'', File)])])
      = [(''d'', [''z.pdf'']), (''d/a'', [''b.pdf'']), (''d/a.b'', [''c.pdf'']),
         (''d/a/z'', [''q.pdf''])]
   \<and> fst (get_files_from_path sample_fs (JStr ''d'') True)
      = Inr [''d/z.pdf'', ''d/a/b.pdf'', ''d/a.b/c.pdf'', ''d/a/z/q.pdf'']"
proof -
  let ?es = "[(''z.pdf'', File),
              (''a'', Dir [(''b.pdf'', File), (''z'', Dir [(''q.pdf'', File)])]),
              (''a.b'', Dir [(''c.pdf'', File)])]"
  have h: "map_of sample_fs (Path ''d'') = Some (Dir ?es)" by code_simp
  have l: "directory_listings (Path ''d'') (Dir ?es)
      = [(''d'', [''z.pdf'']), (''d/a'', [''b.pdf'']), (''d/a.b'', [''c.pdf'']),
         (''d/a/z'', [''q.pdf''])]" by code_simp
  have c: "concat (map (\<lambda>(root, names). map (path_div root) names)
         [(''d'', [''z.pdf'']), (''d/a'', [''b.pdf'']), (''d/a.b'', [''c.pdf'']),
          (''d/a/z'', [''q.pdf''])])
       = [''d/z.pdf'', ''d/a/b.pdf'', ''d/a.b/c.pdf'', ''d/a/z/q.pdf'']" by code_simp
  from recursive_expansion [OF h] have
    "fst (get_files_from_path sample_fs (JStr ''d'') True)
       = Inr (concat (map (\<lambda>(root, names). map (path_div root) names)
                (directory_listings (Path ''d'') (Dir ?es))))" by blast
  then show ?thesis using h l c by simp
qed

text \<open>
  Claim C5. For an entry whose \<^verbatim>\<open>files\<close> field is a list of path strings, the resolver
  sorts that list as a flat list of strings, expands each path with the recursion
  setting of the entry (whether \<^verbatim>\<open>recursive\<close> is among its merged options), and emits
  one resolved entry per file found, each with the merged options.
\<close>

theorem entry_files_sorted_and_expanded:
  assumes "map_of item ''files'' = Some (JArr (map JStr ps))"
    and "fst (merge_options P item) = Inr current_options"
  shows "fst (process_item fs P (JObj item))
       = Inr (concat (map (\<lambda>p. map (\<lambda>file. \<lparr>path = file, options = current_options\<rparr>)
                                 (expand fs p (JStr ''recursive'' \<in> set current_options)))
                (sort ps)))"
  using assms
  by (simp add: process_item_value py_sorted_strings expand_paths_strings result_defs)

theorem entry_files_sorted_and_expanded_witness:
  "map_of [(''files'', JArr (map JStr [''x.png'', ''d'', ''a.pdf''])),
           (''options'', JArr [JStr ''recursive'', JStr ''flipH''])] ''files''
      = Some (JArr (map JStr [''x.png'', ''d'', ''a.pdf'']))
   \<and> fst (merge_options []
        [(''files'', JArr (map JStr [''x.png'', ''d'', ''a.pdf''])),
         (''options'', JArr [JStr ''recursive'', JStr ''flipH''])])
      = Inr [JStr ''recursive'', JStr ''flipH'']
   \<and> map path (projr (fst (process_item sample_fs []
        (JObj [(''files'', JArr (map JStr [''x.png'', ''d'', ''a.pdf''])),
               (''options'', JArr [JStr ''recursive'', JStr ''flipH''])]))))
      = [''a.pdf'', ''d/z.pdf'', ''d/a/b.pdf'', ''d/a.b/c.pdf'', ''d/a/z/q.pdf'', ''x.png'']
   \<and> map options (projr (fst (process_item sample_fs []
        (JObj [(''files'', JArr (map JStr [''x.png'', ''d'', ''a.pdf''])),
               (''options'', JArr [JStr ''recursive'', JStr ''flipH''])]))))
      = replicate 6 [JStr ''recursive'', JStr ''flipH'']"
proof -
  let ?item = "[(''files'', JArr (map JStr [''x.png'', ''d'', ''a.pdf''])),
                (''options'', JArr [JStr ''recursive'', JStr ''flipH''])]"
  let ?cur = "[JStr ''recursive'', JStr ''flipH'']"
  have h1: "map_of ?item ''files'' = Some (JArr (map JStr [''x.png'', ''d'', ''a.pdf'']))"
    by simp
  have h2: "fst (merge_options [] ?item) = Inr ?cur" by code_simp
  have e: "concat (map (\<lambda>p. map (\<lambda>file. \<lparr>path = file, options = ?cur\<rparr>)
                                 (expand sample_fs p (JStr ''recursive'' \<in> set ?cur)))
                (sort [''x.png'', ''d'', ''a.pdf'']))
     = map (\<lambda>file. \<lparr>path = file, options = ?cur\<rparr>)
         [''a.pdf'', ''d/z.pdf'', ''d/a/b.pdf'', ''d/a.b/c.pdf'', ''d/a/z/q.pdf'', ''x.png'']"
    by code_simp
  have "fst (process_item sample_fs [] (JObj ?item))
     = Inr (map (\<lambda>file. \<lparr>path = file, options = ?cur\<rparr>)
         [''a.pdf'', ''d/z.pdf'', ''d/a/b.pdf'', ''d/a.b/c.pdf'', ''d/a/z/q.pdf'', ''x.png''])"
    using entry_files_sorted_and_expanded [OF h1 h2, of sample_fs] e by simp
  then show ?thesis using h1 h2 by (simp add: numeral_eq_Suc)
qed

text \<open>
  Claim C9. An entry object without a \<^verbatim>\<open>files\<close> field (its options, if any, being an
  array) emits no resolved entry; the trace it leaves holds records of level INFO
  only, no warning and no error; and the resolution of the array is the one of the
  array without that entry.
\<close>

theorem entry_without_files:
  assumes "map_of item ''files'' = None"
    and "map_of item ''options'' = None \<or> (\<exists>C. map_of item ''options'' = Some (JArr C))"
  shows "fst (process_item fs P (JObj item)) = Inr []
    \<and> (\<forall>ev \<in> set (snd (process_item fs P (JObj item))). \<exists>msg. ev = Log INFO msg)
    \<and> fst (process_items fs P (before @ JObj item # after))
        = fst (process_items fs P (before @ after))"
proof -
  have m: "\<exists>cur. fst (merge_options P item) = Inr cur"
    using assms(2) by (auto simp: merge_options_value result_defs)
  then have 1: "fst (process_item fs P (JObj item)) = Inr []"
    using assms(1) by (auto simp: process_item_value)
  have 2: "\<forall>ev \<in> set (snd (process_item fs P (JObj item))). \<exists>msg. ev = Log INFO msg"
    using assms
    by (auto simp: process_item.simps merge_options_def snd_bind fst_bind Let_def result_defs
        split: sum.splits if_splits)
  have "fst (process_items fs P (JObj item # after)) = fst (process_items fs P after)"
    using 1 by (simp add: fst_bind result_defs split: sum.splits)
  then have 3: "fst (process_items fs P (before @ JObj item # after))
        = fst (process_items fs P (before @ after))"
    by (simp only: process_items_append [of fs P before])
  from 1 2 3 show ?thesis by blast
qed

theorem entry_without_files_witness:
  "map_of [(''options'', JArr [JStr ''flipH''])] ''files'' = None
   \<and> map_of [(''options'', JArr [JStr ''flipH''])] ''options'' = Some (JArr [JStr ''flipH''])
   \<and> process_item sample_fs [] (JObj [(''options'', JArr [JStr ''flipH''])])
      = (Inr [], [Log INFO ''Adding new options: '',
                  Log INFO ''Processing dictionary entry with options: ''])
   \<and> fst (process_items sample_fs []
        ([JStr ''a.pdf''] @ JObj [(''options'', JArr [JStr ''flipH''])] # [JStr ''x.png'']))
      = Inr [\<lparr>path = ''a.pdf'', options = []\<rparr>, \<lparr>path = ''x.png'', options = []\<rparr>]"
proof -
  let ?item = "[(''options'', JArr [JStr ''flipH''])]"
  have h1: "map_of ?item ''files'' = None" by simp
  have h2: "map_of ?item ''options'' = None \<or> (\<exists>C. map_of ?item ''options'' = Some (JArr C))"
    by simp
  have t: "process_item sample_fs [] (JObj ?item)
      = (Inr [], [Log INFO ''Adding new options: '',
                  Log INFO ''Processing dictionary entry with options: ''])" by code_simp
  have r: "fst (process_items sample_fs [] ([JStr ''a.pdf''] @ [JStr ''x.png'']))
      = Inr [\<lparr>path = ''a.pdf'', options = []\<rparr>, \<lparr>path = ''x.png'', options = []\<rparr>]"
    by code_simp
  from entry_without_files [OF h1 h2, of sample_fs "[]" "[JStr ''a.pdf'']" "[JStr ''x.png'']"]
  have "fst (process_items sample_fs []
        ([JStr ''a.pdf''] @ JObj ?item # [JStr ''x.png'']))
      = fst (process_items sample_fs [] ([JStr ''a.pdf''] @ [JStr ''x.png'']))" by blast
  then show ?thesis using h1 t r by simp
qed

section \<open>Page transformations\<close>

text \<open>
  Claim C7. Applying \<^verbatim>\<open>rotate90\<close> four times in succession returns the page to its
  original orientation: the four options add 360 to the page's rotation, which leaves
  the orientation (the rotation modulo 360) as it was; and two rotations by \<open>a\<close> and
  \<open>b\<close> compose to the orientation plus \<open>a + b\<close>, modulo 360.
\<close>

theorem rotate90_four_times:
  "fst (apply_transformations pg (replicate 4 (JStr ''rotate90'')))
     = Inr (pg\<lparr>rotation := rotation pg + 360\<rparr>)
   \<and> orientation (pg\<lparr>rotation := rotation pg + 360\<rparr>) = orientation pg
   \<and> (\<forall>a b. orientation (rotate_page (rotate_page pg a) b) = (orientation pg + a + b) mod 360)"
proof -
  have four: "replicate 4 (JStr ''rotate90'') = [JStr ''rotate90'', JStr ''rotate90'', JStr ''rotate90'', JStr ''rotate90'']"
    by (simp add: numeral_eq_Suc)
  have "fst (apply_transformations pg (replicate 4 (JStr ''rotate90'')))
     = Inr (pg\<lparr>rotation := rotation pg + 360\<rparr>)"
    unfolding four by (simp add: apply_transformations_def apply_option_def rotate_page_def result_defs)
  moreover have "orientation (pg\<lparr>rotation := rotation pg + 360\<rparr>) = orientation pg"
    by (simp add: orientation_def)
  moreover have "orientation (rotate_page (rotate_page pg a) b) = (orientation pg + a + b) mod 360" for a b
  proof -
    have "(rotation pg + (a + b)) mod 360 = (rotation pg mod 360 + (a + b)) mod 360"
      by (simp only: mod_add_left_eq)
    then show ?thesis by (simp add: orientation_def rotate_page_def add.assoc)
  qed
  ultimately show ?thesis by blast
qed

text \<open>
  Claim C8. On a page of width \<open>W\<close> and height \<open>H\<close>, \<^verbatim>\<open>flipH\<close> followed by
  \<^verbatim>\<open>flipV\<close> sends the content that was at \<open>(x, y)\<close> to \<open>(W - x, H - y)\<close>, which is
  the half turn about the centre \<open>(W / 2, H / 2)\<close> of the page; the media box and the
  rotation of the page stay as they were.
\<close>

theorem flipH_then_flipV:
  "\<exists>pg'. fst (apply_transformations pg [JStr ''flipH'', JStr ''flipV'']) = Inr pg'
     \<and> mediabox_width pg' = mediabox_width pg \<and> mediabox_height pg' = mediabox_height pg
     \<and> rotation pg' = rotation pg
     \<and> (\<forall>pt. place pg' pt =
           (mediabox_width pg - fst (place pg pt), mediabox_height pg - snd (place pg pt))
         \<and> place pg' pt =
           rotate180_about (mediabox_width pg / 2, mediabox_height pg / 2) (place pg pt))"
proof -
  obtain a b c d e f where m: "ctm pg = (a, b, c, d, e, f)" by (cases "ctm pg")
  show ?thesis
    by (simp add: apply_transformations_def apply_option_def scale_def translate_x_def
        translate_y_def place_def m rotate180_about_def Let_def result_defs)
qed

section \<open>Conversion and the run as a whole\<close>

subsection \<open>The prompt\<close>

lemma prompt_not_interrupted: "fst (fst (prompt fs out evs)) \<noteq> Inl KeyboardInterrupt"
proof (induction fs out evs rule: prompt.induct)
  case (1 fs out evs)
  show ?case
  proof (cases "py_input evs")
    case (Pair r rest)
    show ?thesis
    proof (cases r)
      case (Inl e)
      then show ?thesis using Pair
        by (subst prompt.simps) (simp add: Let_def split: raised.splits)
    next
      case (Inr answer)
      show ?thesis
      proof (cases "strip answer = ''1'' \<or> strip answer = ''2'' \<or> strip answer = ''3''")
        case True
        then show ?thesis using Pair Inr
          by (subst prompt.simps) (auto simp: Let_def)
      next
        case False
        then have "fst (fst (prompt fs out rest)) \<noteq> Inl KeyboardInterrupt"
          using "1.IH" [OF refl Pair [symmetric, unfolded Inr] refl] by simp
        then show ?thesis using Pair Inr False
          by (subst prompt.simps) (auto simp: Let_def split: prod.splits)
      qed
    qed
  qed
qed

lemma handle_existing_file_not_interrupted:
  "fst (fst (handle_existing_file s)) \<noteq> Inl KeyboardInterrupt"
  using prompt_not_interrupted [of "disk s" "output_path s" "stdin s"]
  by (auto simp: handle_existing_file_def result_defs split: prod.splits)

lemma handle_existing_file_state:
  "\<exists>rest. snd (handle_existing_file s) = s\<lparr>stdin := rest\<rparr>"
proof (cases "path_exists (disk s) (Path (output_path s))")
  case False
  have "s = s\<lparr>stdin := stdin s\<rparr>" by simp
  then have "\<exists>rest. s = s\<lparr>stdin := rest\<rparr>" by (rule exI)
  then show ?thesis using False by (simp add: handle_existing_file_def)
next
  case True
  then show ?thesis by (auto simp: handle_existing_file_def split: prod.splits)
qed

subsection \<open>Loading and converting\<close>

lemma load_config_state: "snd (load_config s) = s"
  by (simp add: load_config_def split: sum.splits json.splits)


lemma load_config_loaded:
  "read_json s (config_path s) = Inr (JObj cfg) \<Longrightarrow> map_of cfg ''files'' = Some v
     \<Longrightarrow> fst (fst (load_config s)) = Inr (JObj cfg)"
  by (simp add: load_config_def result_defs)

lemma load_config_files:
  "fst (fst (load_config s)) = Inr config
     \<Longrightarrow> \<exists>v. fst (py_getitem config ''files'') = Inr v"
  by (auto simp: load_config_def result_defs split: sum.splits json.splits if_splits)

lemma path_exists_create: "path_exists (fs_create p fs) p"
  by (simp add: path_exists_def fs_create_def)

lemmas convert_defs =
  convert_to_pdf_def io_bind_def io_defs result_defs pypdf_PdfReader_def PIL_Image_open_def
  img_save_def os_remove_def path_exists_create Let_def


lemma convert_to_pdf_state:
  "same_codecs s (snd (convert_to_pdf p s))
   \<and> writer (snd (convert_to_pdf p s)) = writer s
   \<and> output_path (snd (convert_to_pdf p s)) = output_path s
   \<and> write_pdf (snd (convert_to_pdf p s)) = write_pdf s"
  by (simp add: convert_defs same_codecs_def split: sum.splits option.splits)


subsection \<open>The loop over the resolved files\<close>

lemma same_codecs_refl: "same_codecs s s"
  by (simp add: same_codecs_def)

lemma same_codecs_trans: "same_codecs s s1 \<Longrightarrow> same_codecs s1 s2 \<Longrightarrow> same_codecs s s2"
  by (simp add: same_codecs_def)


lemma apply_option_value: "\<exists>pg'. fst (apply_option pg option) = Inr pg'"
  by (simp add: apply_option_def result_defs Let_def)

lemma apply_options_value: "\<exists>pg'. fst (apply_options pg opts) = Inr pg'"
proof (induction opts arbitrary: pg)
  case Nil
  then show ?case by (simp add: result_defs)
next
  case (Cons option opts)
  obtain pg1 where "fst (apply_option pg option) = Inr pg1"
    using apply_option_value by blast
  then show ?case using Cons [of pg1] by (simp add: fst_bind)
qed

lemma apply_transformations_value: "\<exists>pg'. fst (apply_transformations pg opts) = Inr pg'"
  using apply_options_value [of pg opts]
  by (auto simp: apply_transformations_def fst_bind result_defs)

lemma add_pages_value:
  "fst (fst (add_pages opts pgs s)) = Inr ()
   \<and> same_codecs s (snd (add_pages opts pgs s))
   \<and> output_path (snd (add_pages opts pgs s)) = output_path s
   \<and> write_pdf (snd (add_pages opts pgs s)) = write_pdf s"
proof (induction pgs arbitrary: s)
  case Nil
  then show ?case by (simp add: io_defs result_defs same_codecs_refl)
next
  case (Cons pg pgs)
  obtain pg' where pg': "fst (apply_transformations pg opts) = Inr pg'"
    using apply_transformations_value by blast
  let ?s1 = "s\<lparr>writer := writer s @ [pg']\<rparr>"
  have step: "fst (fst (add_pages opts (pg # pgs) s)) = fst (fst (add_pages opts pgs ?s1))"
    "snd (add_pages opts (pg # pgs) s) = snd (add_pages opts pgs ?s1)"
    using pg' by (simp_all add: io_bind_value io_bind_state io_defs add_page_def result_defs)
  have "same_codecs s ?s1" by (simp add: same_codecs_def)
  then show ?case using Cons [of ?s1] step by (auto intro: same_codecs_trans)
qed


lemma process_file_state:
  "same_codecs s (snd (process_file r s))
   \<and> output_path (snd (process_file r s)) = output_path s
   \<and> write_pdf (snd (process_file r s)) = write_pdf s"
proof -
  let ?c = "convert_to_pdf (path r) s"
  have c: "same_codecs s (snd ?c)" "output_path (snd ?c) = output_path s"
    "write_pdf (snd ?c) = write_pdf s"
    using convert_to_pdf_state [of s "path r"] by simp_all
  show ?thesis
  proof (cases "fst (fst ?c)")
    case (Inl e)
    then show ?thesis using c
      by (simp add: process_file_def io_bind_value io_bind_state io_defs result_defs)
  next
    case (Inr reader)
    show ?thesis
    proof (cases reader)
      case None
      then show ?thesis using c Inr
        by (simp add: process_file_def io_bind_value io_bind_state io_defs result_defs)
    next
      case (Some pages)
      have "same_codecs (snd ?c) (snd (add_pages (options r) pages (snd ?c)))"
        "output_path (snd (add_pages (options r) pages (snd ?c))) = output_path (snd ?c)"
        "write_pdf (snd (add_pages (options r) pages (snd ?c))) = write_pdf (snd ?c)"
        using add_pages_value [of "options r" pages "snd ?c"] by simp_all
      then show ?thesis using c Inr Some
        by (auto simp: process_file_def io_bind_value io_bind_state io_defs result_defs
            intro: same_codecs_trans)
    qed
  qed
qed




lemma process_all_state:
  "output_path (snd (process_all rs s)) = output_path s
   \<and> write_pdf (snd (process_all rs s)) = write_pdf s"
proof (induction rs arbitrary: s)
  case Nil
  then show ?case by (simp add: io_defs)
next
  case (Cons r rs)
  then show ?case using process_file_state [of s r]
    by (auto simp: io_bind_state split: sum.splits)
qed

subsection \<open>The run as a whole\<close>

lemma process_config_value:
  "fst (fst (process_config s)) =
     (case fst (fst (load_config s)) of
        Inl e \<Rightarrow> Inl e
      | Inr config \<Rightarrow>
          (case fst (py_getitem config ''files'') of
             Inl e \<Rightarrow> Inl e
           | Inr files_array \<Rightarrow>
               (case fst (process_files_array (disk s) files_array None) of
                  Inl e \<Rightarrow> Inl e
                | Inr rs \<Rightarrow>
                    (case fst (fst (process_all rs s)) of
                       Inl e \<Rightarrow> Inl e
                     | Inr u \<Rightarrow>
                         (case write_pdf s (output_path s) (writer (snd (process_all rs s))) of
                            Some e \<Rightarrow> Inl e
                          | None \<Rightarrow> Inr True)))))"
  using process_all_state [of _ s]
  by (simp add: process_config_def io_bind_value io_bind_state load_config_state io_defs
      write_output_def result_defs split: sum.splits option.splits)

lemma process_try_value:
  "fst (fst (process_try s)) =
     (case fst (fst (handle_existing_file s)) of
        Inl e \<Rightarrow> Inl e
      | Inr None \<Rightarrow> Inr False
      | Inr (Some out) \<Rightarrow>
          (case fst (fst (process_config ((snd (handle_existing_file s))\<lparr>output_path := out\<rparr>))) of
             Inl e \<Rightarrow> Inl (Exception e)
           | Inr b \<Rightarrow> Inr b))"
  by (simp add: process_try_def io_bind_value io_bind_state io_exc_value io_defs result_defs
      split: sum.splits option.splits)

lemma process_value:
  "fst (fst (process s)) =
     (case fst (fst (process_try s)) of
        Inl KeyboardInterrupt \<Rightarrow> Inl KeyboardInterrupt
      | Inl (Exception e) \<Rightarrow> Inr False
      | Inr b \<Rightarrow> Inr b)"
  by (simp add: process_def split: prod.splits sum.splits raised.splits)

lemma process_try_not_interrupted: "fst (fst (process_try s)) \<noteq> Inl KeyboardInterrupt"
  using handle_existing_file_not_interrupted [of s]
  by (auto simp: process_try_value split: sum.splits option.splits)

lemma process_returns: "\<exists>b. fst (fst (process s)) = Inr b"
  using process_try_not_interrupted [of s]
  by (auto simp: process_value split: sum.splits raised.splits)

lemma process_not_True:
  "fst (fst (process_try s)) \<noteq> Inr True \<Longrightarrow> fst (fst (process s)) = Inr False"
  using process_try_not_interrupted [of s]
  by (cases "fst (fst (process_try s))") (auto simp: process_value split: raised.splits)

lemma handle_existing_file_frame:
  "disk (snd (handle_existing_file s)) = disk s
   \<and> read_json (snd (handle_existing_file s)) = read_json s
   \<and> config_path (snd (handle_existing_file s)) = config_path s
   \<and> writer (snd (handle_existing_file s)) = writer s
   \<and> write_pdf (snd (handle_existing_file s)) = write_pdf s
   \<and> same_codecs s (snd (handle_existing_file s))"
proof -
  obtain rest where "snd (handle_existing_file s) = s\<lparr>stdin := rest\<rparr>"
    using handle_existing_file_state by blast
  then show ?thesis by (simp add: same_codecs_def)
qed

text \<open>
  Claim C2. The intermediate PDF of an image conversion is to be gone when
  \<open>convert_to_pdf\<close> returns, whether the conversion and the read-back succeed or fail.
  The method removes the file after the read-back only (\<^verbatim>\<open>os.remove\<close> follows
  \<^verbatim>\<open>pypdf.PdfReader\<close> with no \<^verbatim>\<open>try\<close> and \<^verbatim>\<open>finally\<close>): in \<open>sample_state\<close>, where the
  image is saved and the read-back raises, \<^verbatim>\<open>x.temp.pdf\<close> did not exist before the call
  and exists after it; in \<open>sample_state_readable\<close>, where the read-back succeeds, it is
  removed.
\<close>

theorem temp_file_left_behind:
  "fst (fst (convert_to_pdf ''x.png'' sample_state)) = Inl LibraryError
   \<and> \<not> path_exists (disk sample_state) ''x.temp.pdf''
   \<and> path_exists (disk (snd (convert_to_pdf ''x.png'' sample_state))) ''x.temp.pdf''
   \<and> fst (fst (convert_to_pdf ''x.png'' sample_state_readable)) = Inr (Some [blank_page])
   \<and> \<not> path_exists (disk (snd (convert_to_pdf ''x.png'' sample_state_readable))) ''x.temp.pdf''"
  by code_simp

text \<open>
  Claim C6. No exception leaves \<open>process\<close>: it always returns a boolean, and whenever
  its \<^verbatim>\<open>try\<close> block raises, it returns \<^verbatim>\<open>False\<close> and the trace of the block is
  followed by the ERROR record of the handler. The only exception outside the
  classes of \<^verbatim>\<open>Exception\<close>, the \<^verbatim>\<open>KeyboardInterrupt\<close> of \<^verbatim>\<open>input()\<close>, is handled at the
  prompt.
\<close>

theorem no_exception_escapes:
  "(\<exists>b. fst (fst (process s)) = Inr b)
   \<and> (\<forall>e. fst (fst (process_try s)) = Inl e \<longrightarrow>
         fst (fst (process s)) = Inr False
         \<and> snd (fst (process s)) = snd (fst (process_try s)) @ [Log ERROR ''Error during processing: ''])"
proof -
  have "fst (fst (process s)) = Inr False
         \<and> snd (fst (process s)) = snd (fst (process_try s)) @ [Log ERROR ''Error during processing: '']"
    if "fst (fst (process_try s)) = Inl e" for e
    using that process_try_not_interrupted [of s]
    by (cases e) (auto simp: process_def split: prod.splits sum.splits raised.splits)
  then show ?thesis using process_returns by blast
qed

theorem no_exception_escapes_witness:
  "fst (fst (process_try sample_state_no_config)) = Inl (Exception FileNotFoundError)
   \<and> fst (process sample_state_no_config)
       = (Inr False, [Log ERROR ''Configuration file not found: '',
                      Log ERROR ''Error during processing: ''])"
proof -
  have h: "fst (fst (process_try sample_state_no_config)) = Inl (Exception FileNotFoundError)"
    by code_simp
  have t: "snd (fst (process_try sample_state_no_config))
      = [Log ERROR ''Configuration file not found: '']" by code_simp
  from no_exception_escapes [of sample_state_no_config] h
  have "fst (fst (process sample_state_no_config)) = Inr False
     \<and> snd (fst (process sample_state_no_config))
        = snd (fst (process_try sample_state_no_config)) @ [Log ERROR ''Error during processing: '']"
    by blast
  then show ?thesis using h t by (simp add: prod_eq_iff)
qed

text \<open>
  Claim C10. If the configuration holds an entry object whose inner \<^verbatim>\<open>files\<close> array
  has an element that is not a string, \<open>process\<close> returns \<^verbatim>\<open>False\<close>, whatever the rest
  of the configuration and of the world: sorting or expanding the inner array raises
  \<^verbatim>\<open>TypeError\<close>, which nothing handles before the \<^verbatim>\<open>except\<close> clause of \<open>process\<close>.
\<close>

theorem nested_entry_fails:
  assumes "read_json s (config_path s) = Inr (JObj cfg)"
    and "map_of cfg ''files'' = Some (JArr items)"
    and "JObj item \<in> set items"
    and "map_of item ''files'' = Some (JArr xs)"
    and "x \<in> set xs" and "\<not> is_JStr x"
  shows "fst (fst (process s)) = Inr False"
proof -
  have bad: "\<exists>e. fst (process_files_array fs (JArr items) None) = Inl e" for fs
  proof -
    have "fst (process_item fs [] (JObj item)) = Inl TypeError"
      using assms(4-6) by (rule process_item_bad_files)
    then have "\<exists>e. fst (process_items fs [] items) = Inl e"
      using assms(3) process_items_bad by blast
    then show ?thesis by (simp add: process_files_array_def fst_bind result_defs)
  qed
  have "fst (fst (process_config s1)) \<noteq> Inr True"
    if "read_json s1 = read_json s" "config_path s1 = config_path s" for s1
  proof -
    have "fst (fst (load_config s1)) = Inr (JObj cfg)"
      using assms(1,2) that by (simp add: load_config_loaded)
    moreover obtain e where "fst (process_files_array (disk s1) (JArr items) None) = Inl e"
      using bad by blast
    ultimately show ?thesis using assms(2)
      by (simp add: process_config_value result_defs)
  qed
  then have "fst (fst (process_try s)) \<noteq> Inr True"
    using handle_existing_file_frame [of s]
    by (auto simp: process_try_value split: sum.splits option.splits)
  then show ?thesis by (rule process_not_True)
qed

theorem nested_entry_fails_witness:
  "read_json sample_state_nested (config_path sample_state_nested)
      = Inr (JObj [(''files'',
          JArr [JObj [(''files'', JArr [JStr ''a.pdf'', JObj [(''files'', JArr [JStr ''x.png''])]])]])])
   \<and> \<not> is_JStr (JObj [(''files'', JArr [JStr ''x.png''])])
   \<and> fst (fst (process sample_state_nested)) = Inr False"
proof -
  let ?inner = "JObj [(''files'', JArr [JStr ''x.png''])]"
  let ?item = "[(''files'', JArr [JStr ''a.pdf'', ?inner])]"
  let ?cfg = "[(''files'', JArr [JObj ?item])]"
  have h1: "read_json sample_state_nested (config_path sample_state_nested) = Inr (JObj ?cfg)"
    by (simp add: sample_state_nested_def sample_state_def)
  have h2: "map_of ?cfg ''files'' = Some (JArr [JObj ?item])" by simp
  have h3: "JObj ?item \<in> set [JObj ?item]" by simp
  have h4: "map_of ?item ''files'' = Some (JArr [JStr ''a.pdf'', ?inner])" by simp
  have h5: "?inner \<in> set [JStr ''a.pdf'', ?inner]" by simp
  have h6: "\<not> is_JStr ?inner" by simp
  from nested_entry_fails [OF h1 h2 h3 h4 h5 h6] show ?thesis using h1 h6 by simp
qed




end
